theory Spec2Isabelle
  imports Main "HOL-Library.Word"
begin

section \<open>Backslash escape: the data model\<close>

text \<open>
  The program is \<^verbatim>\<open>src/index.ts\<close>, three functions over JavaScript strings:
  \<^verbatim>\<open>escapeString\<close>, \<^verbatim>\<open>unescapeString\<close> and \<^verbatim>\<open>countEscapedCharacters\<close>.

  A JavaScript string is a sequence of 16-bit UTF-16 code units: \<^verbatim>\<open>str.length\<close> counts
  code units, \<^verbatim>\<open>str[i]\<close> is the one-unit string at index \<open>i\<close> and
  \<^verbatim>\<open>char.charCodeAt(0)\<close> is its value, a number in \<open>0..65535\<close>. A string is
  therefore a list of 16-bit words, and a code point beyond the Basic Multilingual Plane
  is two list elements (its surrogate pair).
\<close>

type_synonym u16 = "16 word"
type_synonym jsstring = "u16 list"

text \<open>
  Modelled from the spec: the type \<^verbatim>\<open>EscapeStyle\<close> is named in the signature of
  \<^verbatim>\<open>escapeString\<close> but its declaration is not part of the source file. The spec
  gives it as the enumeration of \<^verbatim>\<open>json\<close>, \<^verbatim>\<open>javascript\<close>, \<^verbatim>\<open>python\<close>
  and \<^verbatim>\<open>c\<close>, the four values the function compares its argument with.
\<close>

datatype EscapeStyle = Json | Javascript | Python | C

text \<open>The only exception the code can raise: \<^verbatim>\<open>String.fromCodePoint\<close> on a bad value.\<close>

datatype error = RangeError

text \<open>
  String literals of the source. A backslash cannot be written inside an Isabelle string
  literal, so the characters the code compares with get names, and \<open>lit\<close> turns an
  ASCII literal into code units.
\<close>

abbreviation BSLASH :: u16 where "BSLASH \<equiv> 0x5C"
abbreviation DQUOTE :: u16 where "DQUOTE \<equiv> 0x22"
abbreviation SQUOTE :: u16 where "SQUOTE \<equiv> 0x27"
abbreviation NEWLINE :: u16 where "NEWLINE \<equiv> 0x0A"
abbreviation CRETURN :: u16 where "CRETURN \<equiv> 0x0D"
abbreviation HTAB :: u16 where "HTAB \<equiv> 0x09"
abbreviation BACKSPACE :: u16 where "BACKSPACE \<equiv> 0x08"
abbreviation FORMFEED :: u16 where "FORMFEED \<equiv> 0x0C"

definition lit :: "string \<Rightarrow> jsstring" where
  "lit s = map of_char s"

section \<open>Library functions the code calls\<close>

text \<open>
  \<^verbatim>\<open>n.toString(16)\<close> for a non-negative integer: the lowercase hexadecimal digits of
  \<open>n\<close>, most significant first, without leading zeros (\<open>0\<close> gives the one digit).
\<close>

definition hexDigit :: "nat \<Rightarrow> u16" where
  "hexDigit d = (if d < 10 then of_nat (48 + d) else of_nat (87 + d))"

function toString16 :: "nat \<Rightarrow> jsstring" where
  "toString16 n =
     (if n < 16 then [hexDigit n] else toString16 (n div 16) @ [hexDigit (n mod 16)])"
  by pat_completeness auto
termination
  by (relation "measure (\<lambda>n. n)") auto

text \<open>
  \<^verbatim>\<open>s.padStart(k, "0")\<close>: \<open>s\<close> itself when it has \<open>k\<close> units or more, otherwise
  zeros in front up to length \<open>k\<close>. The second argument is one code unit here.
\<close>

definition padStart :: "jsstring \<Rightarrow> nat \<Rightarrow> u16 \<Rightarrow> jsstring" where
  "padStart s k p = replicate (k - length s) p @ s"

text \<open>\<^verbatim>\<open>str.substring(a, b)\<close> with \<open>a \<le> b\<close>; both ends are clamped to the length.\<close>

definition substring :: "jsstring \<Rightarrow> nat \<Rightarrow> nat \<Rightarrow> jsstring" where
  "substring str a b = take (b - a) (drop a str)"

text \<open>The character class \<^verbatim>\<open>[0-9a-fA-F]\<close> and the value of such a digit.\<close>

definition isHexDigit :: "u16 \<Rightarrow> bool" where
  "isHexDigit c =
     ((48 \<le> unat c \<and> unat c \<le> 57) \<or> (97 \<le> unat c \<and> unat c \<le> 102)
      \<or> (65 \<le> unat c \<and> unat c \<le> 70))"

definition hexValue :: "u16 \<Rightarrow> nat" where
  "hexValue c =
     (if unat c \<le> 57 then unat c - 48
      else if 97 \<le> unat c then unat c - 87
      else unat c - 55)"

text \<open>
  The two regular expressions, both anchored at the two ends of the tested string:
  \<^verbatim>\<open>/^[0-9a-fA-F]+$/\<close> and \<^verbatim>\<open>/^[0-9a-fA-F]{2}$/\<close>.
\<close>

definition testHexPlus :: "jsstring \<Rightarrow> bool" where
  "testHexPlus s = (s \<noteq> [] \<and> list_all isHexDigit s)"

definition testHex2 :: "jsstring \<Rightarrow> bool" where
  "testHex2 s = (length s = 2 \<and> list_all isHexDigit s)"

text \<open>
  \<^verbatim>\<open>parseInt(s, 16)\<close>: the value of the longest prefix of hexadecimal digits, \<open>NaN\<close>
  (here \<open>None\<close>) when \<open>s\<close> does not start with one. The code calls it only on strings
  that passed one of the two tests above, of at most eight digits, so the white space,
  sign and \<^verbatim>\<open>0x\<close> prefix that \<^verbatim>\<open>parseInt\<close> also accepts cannot occur, and the value
  is exact.
\<close>

definition parseInt16 :: "jsstring \<Rightarrow> nat option" where
  "parseInt16 s =
     (if s \<noteq> [] \<and> isHexDigit (hd s)
      then Some (foldl (\<lambda>acc c. acc * 16 + hexValue c) 0 (takeWhile isHexDigit s))
      else None)"

text \<open>
  \<^verbatim>\<open>String.fromCodePoint(code)\<close>: throws \<^verbatim>\<open>RangeError\<close> above \<open>0x10FFFF\<close>; one
  code unit below \<open>0x10000\<close> (a surrogate value included, unchecked); otherwise the
  surrogate pair. \<^verbatim>\<open>String.fromCharCode(n)\<close>: the one code unit \<open>n mod 65536\<close>.
\<close>

definition fromCodePoint :: "nat \<Rightarrow> error + jsstring" where
  "fromCodePoint code =
     (if code > 0x10FFFF then Inl RangeError
      else if code < 0x10000 then Inr [of_nat code]
      else Inr [of_nat ((code - 0x10000) div 0x400 + 0xD800),
                of_nat ((code - 0x10000) mod 0x400 + 0xDC00)])"

definition fromCharCode :: "nat \<Rightarrow> jsstring" where
  "fromCharCode n = [of_nat n]"

section \<open>escapeString\<close>

text \<open>
  The body of the \<^verbatim>\<open>for\<close> loop: what one iteration appends to \<^verbatim>\<open>result\<close> for the
  code unit \<^verbatim>\<open>char = str[i]\<close>. The \<^verbatim>\<open>switch\<close> is the chain of comparisons, in the
  source's order; \<^verbatim>\<open>code\<close> is \<^verbatim>\<open>char.charCodeAt(0)\<close>. A style that is none of the
  four appends nothing in the default case, as the source's \<^verbatim>\<open>if\<close> chain without a
  final \<^verbatim>\<open>else\<close> does.
\<close>

definition escapeChar :: "u16 \<Rightarrow> EscapeStyle \<Rightarrow> jsstring" where
  "escapeChar char style =
     (let code = unat char in
      if char = BSLASH then [BSLASH, BSLASH]
      else if char = NEWLINE then BSLASH # lit ''n''
      else if char = CRETURN then BSLASH # lit ''r''
      else if char = HTAB then BSLASH # lit ''t''
      else if char = BACKSPACE then BSLASH # lit ''b''
      else if char = FORMFEED then BSLASH # lit ''f''
      else if char = DQUOTE then [BSLASH, DQUOTE]
      else if char = SQUOTE then
        (if style = Python \<or> style = C then [BSLASH, SQUOTE] else [char])
      else if code < 32 \<or> code > 126 then
        (if style = Json \<or> style = Javascript then
           (if code < 0x10000 then BSLASH # lit ''u'' @ padStart (toString16 code) 4 0x30
            else
              (let high = (code - 0x10000) div 0x400 + 0xD800;
                   low = (code - 0x10000) mod 0x400 + 0xDC00
               in (BSLASH # lit ''u'' @ padStart (toString16 high) 4 0x30)
                  @ (BSLASH # lit ''u'' @ padStart (toString16 low) 4 0x30)))
         else if style = Python then
           (if code < 0x10000 then BSLASH # lit ''u'' @ padStart (toString16 code) 4 0x30
            else BSLASH # lit ''U'' @ padStart (toString16 code) 8 0x30)
         else if style = C then
           (if code < 256 then BSLASH # lit ''x'' @ padStart (toString16 code) 2 0x30
            else BSLASH # lit ''u'' @ padStart (toString16 code) 4 0x30)
         else [])
      else [char])"

text \<open>The loop over \<^verbatim>\<open>i = 0 .. str.length - 1\<close>, \<^verbatim>\<open>result\<close> starting empty.\<close>

definition escapeString :: "jsstring \<Rightarrow> EscapeStyle \<Rightarrow> jsstring" where
  "escapeString str style = foldl (\<lambda>result char. result @ escapeChar char style) [] str"

section \<open>unescapeString\<close>

text \<open>
  One iteration of the \<^verbatim>\<open>while\<close> loop at cursor \<open>i < length str\<close>: the new cursor and
  the new \<^verbatim>\<open>result\<close>, or the exception thrown. \<^verbatim>\<open>str[i + 1]\<close> is read only after
  \<^verbatim>\<open>i + 1 < str.length\<close>.
\<close>

definition unescapeStep :: "jsstring \<Rightarrow> nat \<Rightarrow> jsstring \<Rightarrow> error + (nat \<times> jsstring)" where
  "unescapeStep str i result =
     (if str ! i = BSLASH \<and> i + 1 < length str then
        (let next = str ! (i + 1) in
         if next = BSLASH then Inr (i + 2, result @ [BSLASH])
         else if next = 0x6E then Inr (i + 2, result @ [NEWLINE])
         else if next = 0x72 then Inr (i + 2, result @ [CRETURN])
         else if next = 0x74 then Inr (i + 2, result @ [HTAB])
         else if next = 0x62 then Inr (i + 2, result @ [BACKSPACE])
         else if next = 0x66 then Inr (i + 2, result @ [FORMFEED])
         else if next = DQUOTE then Inr (i + 2, result @ [DQUOTE])
         else if next = SQUOTE then Inr (i + 2, result @ [SQUOTE])
         else if next = 0x75 \<or> next = 0x55 then
           (let isLong = (next = 0x55);
                hexLength = (if isLong then 8 else 4)
            in if i + 2 + hexLength \<le> length str then
                 (let hexCode = substring str (i + 2) (i + 2 + hexLength) in
                  if testHexPlus hexCode then
                    (case parseInt16 hexCode of
                       None \<Rightarrow> Inl RangeError
                     | Some code \<Rightarrow>
                         (case fromCodePoint code of
                            Inl e \<Rightarrow> Inl e
                          | Inr s \<Rightarrow> Inr (i + 2 + hexLength, result @ s)))
                  else Inr (i + 1, result @ [str ! i]))
               else Inr (i + 1, result @ [str ! i]))
         else if next = 0x78 then
           (if i + 3 < length str then
              (let hexCode = substring str (i + 2) (i + 4) in
               if testHex2 hexCode then
                 (case parseInt16 hexCode of
                    None \<Rightarrow> Inr (i + 4, result @ fromCharCode 0)
                  | Some code \<Rightarrow> Inr (i + 4, result @ fromCharCode code))
               else Inr (i + 1, result @ [str ! i]))
            else Inr (i + 1, result @ [str ! i]))
         else Inr (i + 1, result @ [str ! i]))
      else Inr (i + 1, result @ [str ! i]))"

text \<open>
  The \<^verbatim>\<open>while (i < str.length)\<close> loop. An exception leaves the loop and the function;
  otherwise the loop ends with the cursor at or past the end and \<^verbatim>\<open>result\<close> is
  returned. Every step moves the cursor forward, which is why the loop ends.
\<close>

function unescapeLoop :: "jsstring \<Rightarrow> nat \<Rightarrow> jsstring \<Rightarrow> error + jsstring" where
  "unescapeLoop str i result =
     (if i < length str then
        (case unescapeStep str i result of
           Inl e \<Rightarrow> Inl e
         | Inr (i', result') \<Rightarrow> unescapeLoop str i' result')
      else Inr result)"
  by pat_completeness auto
termination
  by (relation "measure (\<lambda>(str, i, result). length str - i)")
     (auto simp: unescapeStep_def Let_def split: if_splits option.splits sum.splits)

definition unescapeString :: "jsstring \<Rightarrow> error + jsstring" where
  "unescapeString str = unescapeLoop str 0 []"

section \<open>countEscapedCharacters\<close>

text \<open>The condition of the \<^verbatim>\<open>if\<close> in the loop, for one code unit.\<close>

definition countsAsEscaped :: "u16 \<Rightarrow> bool" where
  "countsAsEscaped char =
     (let code = unat char in
      char = BSLASH \<or> char = NEWLINE \<or> char = CRETURN \<or> char = HTAB
      \<or> char = BACKSPACE \<or> char = FORMFEED \<or> char = DQUOTE \<or> char = SQUOTE
      \<or> code < 32 \<or> code > 126)"

definition countEscapedCharacters :: "jsstring \<Rightarrow> nat" where
  "countEscapedCharacters str =
     foldl (\<lambda>count char. if countsAsEscaped char then count + 1 else count) 0 str"

section \<open>Notions the specification uses\<close>

text \<open>
  The JavaScript string that holds the one code point \<open>x\<close> beyond the Basic
  Multilingual Plane (\<open>0x10000 \<le> x \<le> 0x10FFFF\<close>): its UTF-16 surrogate pair, high
  unit first.
\<close>

definition surrogatePair :: "nat \<Rightarrow> jsstring" where
  "surrogatePair x =
     [of_nat ((x - 0x10000) div 0x400 + 0xD800), of_nat ((x - 0x10000) mod 0x400 + 0xDC00)]"

text \<open>
  In the specification's words, "\<open>k\<close> zero-padded lowercase hexadecimal digits" of a
  value \<open>n < 16 ^ k\<close>: digit \<open>i\<close> from the left is \<open>n div 16 ^ (k - 1 - i) mod 16\<close>,
  written with the characters \<open>0..9\<close>, \<open>a..f\<close>.
\<close>

definition hexString :: "nat \<Rightarrow> nat \<Rightarrow> jsstring" where
  "hexString k n =
     map (\<lambda>i. lit ''0123456789abcdef'' ! (n div 16 ^ (k - 1 - i) mod 16)) [0..<k]"

text \<open>
  In the specification's words, the malformed escapes at cursor \<open>i\<close>: a backslash that
  is the last character, or is followed by an unknown escape letter, or by \<open>x\<close>,
  \<open>u\<close> or \<open>U\<close> without the two, four or eight characters it needs or with a
  character among them that is not a hexadecimal digit.
\<close>

definition malformedEscapeAt :: "jsstring \<Rightarrow> nat \<Rightarrow> bool" where
  "malformedEscapeAt str i =
     (str ! i = BSLASH \<and>
      (length str \<le> i + 1
       \<or> str ! (i + 1) \<notin> set (BSLASH # DQUOTE # SQUOTE # lit ''nrtbfuUx'')
       \<or> (str ! (i + 1) = 0x78
           \<and> (length str < i + 4 \<or> \<not> list_all isHexDigit (substring str (i + 2) (i + 4))))
       \<or> (str ! (i + 1) = 0x75
           \<and> (length str < i + 6 \<or> \<not> list_all isHexDigit (substring str (i + 2) (i + 6))))
       \<or> (str ! (i + 1) = 0x55
           \<and> (length str < i + 10 \<or> \<not> list_all isHexDigit (substring str (i + 2) (i + 10))))))"

section \<open>Auxiliary facts\<close>

declare unescapeLoop.simps [simp del]
declare toString16.simps [simp del]

subsection \<open>Code units, loops as list functions\<close>

lemma unat_u16_less: "unat (c :: u16) < 65536"
  using unsigned_less [of c] by simp

lemma unat_of_nat_u16: "n < 65536 \<Longrightarrow> unat (of_nat n :: u16) = n"
  by (simp add: unat_of_nat)

lemma foldl_append_acc:
  "foldl (\<lambda>r c. r @ f c) acc xs = acc @ concat (map f xs)"
  by (induction xs arbitrary: acc) simp_all

lemma escapeString_concat:
  "escapeString str style = concat (map (\<lambda>c. escapeChar c style) str)"
  by (simp add: escapeString_def foldl_append_acc)

lemma foldl_count_acc:
  "foldl (\<lambda>count c. if P c then count + 1 else count) (n::nat) xs = n + length (filter P xs)"
  by (induction xs arbitrary: n) simp_all

lemma countEscapedCharacters_filter:
  "countEscapedCharacters str = length (filter countsAsEscaped str)"
  by (simp add: countEscapedCharacters_def foldl_count_acc)

lemma hexDigit_unat: "d < 16 \<Longrightarrow> unat (hexDigit d) = (if d < 10 then 48 + d else 87 + d)"
  by (simp add: hexDigit_def unat_of_nat_u16 del: of_nat_add)

lemma isHexDigit_hexDigit: "d < 16 \<Longrightarrow> isHexDigit (hexDigit d)"
  by (simp add: isHexDigit_def hexDigit_unat)

lemma hexValue_hexDigit: "d < 16 \<Longrightarrow> hexValue (hexDigit d) = d"
  by (simp add: hexValue_def hexDigit_unat)

lemma toString16_small: "n < 16 \<Longrightarrow> toString16 n = [hexDigit n]"
  by (simp add: toString16.simps)

lemma toString16_step: "16 \<le> n \<Longrightarrow> toString16 n = toString16 (n div 16) @ [hexDigit (n mod 16)]"
  by (subst toString16.simps) simp

lemma replicate_small:
  "replicate 2 x = [x, x]" "replicate 3 x = [x, x, x]"
  by (simp_all add: numeral_2_eq_2 numeral_3_eq_3)

lemma hexDigit_0: "hexDigit 0 = 0x30"
  by (simp add: hexDigit_def)

lemma padStart4:
  assumes "n < 65536"
  shows "padStart (toString16 n) 4 0x30 =
    [hexDigit (n div 4096), hexDigit (n div 256 mod 16), hexDigit (n div 16 mod 16), hexDigit (n mod 16)]"
proof -
  consider "n < 16" | "16 \<le> n" "n < 256" | "256 \<le> n" "n < 4096" | "4096 \<le> n"
    by linarith
  then show ?thesis
  proof cases
    case 1
    then show ?thesis by (simp add: padStart_def toString16_small hexDigit_0 replicate_small)
  next
    case 2
    then have "n div 16 < 16" by simp
    with 2 show ?thesis
      by (simp add: padStart_def toString16_step toString16_small hexDigit_0 replicate_small)
  next
    case 3
    then have a: "n div 16 div 16 < 16" "16 \<le> n div 16" "16 \<le> n" by simp_all
    have b: "n div 16 div 16 = n div 256" by (simp add: div_mult2_eq)
    from 3 a b show ?thesis
      by (simp add: padStart_def toString16_step toString16_small hexDigit_0 replicate_small)
  next
    case 4
    with assms have a: "n div 16 div 16 div 16 < 16" "16 \<le> n div 16 div 16" "16 \<le> n div 16" "16 \<le> n" by simp_all
    have b: "n div 16 div 16 = n div 256" "n div 16 div 16 div 16 = n div 4096" by (simp_all add: div_mult2_eq)
    have c: "n div 4096 < 16" using assms by simp
    from 4 a b c show ?thesis
      by (simp add: padStart_def toString16_step toString16_small)
  qed
qed


lemma padStart2:
  assumes "n < 256"
  shows "padStart (toString16 n) 2 0x30 = [hexDigit (n div 16), hexDigit (n mod 16)]"
proof (cases "n < 16")
  case True
  then show ?thesis by (simp add: padStart_def toString16_small hexDigit_0)
next
  case False
  with assms have "n div 16 < 16" by simp
  with False show ?thesis by (simp add: padStart_def toString16_step toString16_small)
qed

subsection \<open>Hexadecimal digits written and read back\<close>

lemma parseInt16_digits4:
  assumes "a < 16" "b < 16" "c < 16" "d < 16"
  shows "parseInt16 [hexDigit a, hexDigit b, hexDigit c, hexDigit d]
         = Some (((a * 16 + b) * 16 + c) * 16 + d)"
  using assms by (simp add: parseInt16_def isHexDigit_hexDigit hexValue_hexDigit)

lemma parseInt16_digits2:
  assumes "a < 16" "b < 16"
  shows "parseInt16 [hexDigit a, hexDigit b] = Some (a * 16 + b)"
  using assms by (simp add: parseInt16_def isHexDigit_hexDigit hexValue_hexDigit)

lemma hex4_value:
  "((n div 4096 * 16 + n div 256 mod 16) * 16 + n div 16 mod 16) * 16 + n mod 16 = (n::nat)"
proof -
  have a: "n div 4096 = n div 16 div 16 div 16" and b: "n div 256 = n div 16 div 16"
    by (simp_all add: div_mult2_eq)
  show ?thesis
    unfolding a b by (simp only: div_mult_mod_eq)
qed

lemma hex2_value: "n div 16 * 16 + n mod 16 = (n::nat)"
  by (simp only: div_mult_mod_eq)

lemma pad4_length: "n < 65536 \<Longrightarrow> length (padStart (toString16 n) 4 0x30) = 4"
  by (simp add: padStart4)

lemma pad4_hex: "n < 65536 \<Longrightarrow> list_all isHexDigit (padStart (toString16 n) 4 0x30)"
  by (simp add: padStart4 isHexDigit_hexDigit)

lemma pad4_parse:
  assumes "n < 65536"
  shows "parseInt16 (padStart (toString16 n) 4 0x30) = Some n"
proof -
  have "n div 4096 < 16" using assms by simp
  then have "parseInt16 (padStart (toString16 n) 4 0x30)
    = Some (((n div 4096 * 16 + n div 256 mod 16) * 16 + n div 16 mod 16) * 16 + n mod 16)"
    using assms by (simp only: padStart4 parseInt16_digits4 mod_less_divisor zero_less_numeral)
  then show ?thesis by (simp only: hex4_value)
qed

lemma pad2_length: "n < 256 \<Longrightarrow> length (padStart (toString16 n) 2 0x30) = 2"
  by (simp add: padStart2)

lemma pad2_hex: "n < 256 \<Longrightarrow> list_all isHexDigit (padStart (toString16 n) 2 0x30)"
  by (simp add: padStart2 isHexDigit_hexDigit)

lemma pad2_parse:
  assumes "n < 256"
  shows "parseInt16 (padStart (toString16 n) 2 0x30) = Some n"
proof -
  have "n div 16 < 16" using assms by simp
  then have "parseInt16 (padStart (toString16 n) 2 0x30) = Some (n div 16 * 16 + n mod 16)"
    using assms by (simp only: padStart2 parseInt16_digits2 mod_less_divisor zero_less_numeral)
  then show ?thesis by (simp only: hex2_value)
qed

lemma hexDigit_lowercase: "d < 16 \<Longrightarrow> hexDigit d = lit ''0123456789abcdef'' ! d"
proof -
  assume "d < 16"
  then have "d = 0 \<or> d = 1 \<or> d = 2 \<or> d = 3 \<or> d = 4 \<or> d = 5 \<or> d = 6 \<or> d = 7 \<or> d = 8
      \<or> d = 9 \<or> d = 10 \<or> d = 11 \<or> d = 12 \<or> d = 13 \<or> d = 14 \<or> d = 15"
    by arith
  then show ?thesis by (auto simp: hexDigit_def lit_def)
qed

lemma hexString_2: "n < 256 \<Longrightarrow> hexString 2 n = [hexDigit (n div 16), hexDigit (n mod 16)]"
  by (simp add: hexString_def hexDigit_lowercase upt_rec numeral_2_eq_2)

lemma hexString_4:
  assumes "n < 65536"
  shows "hexString 4 n =
    [hexDigit (n div 4096), hexDigit (n div 256 mod 16), hexDigit (n div 16 mod 16), hexDigit (n mod 16)]"
proof -
  have u: "[0..<4] = [0, 1, 2, 3]" by (simp add: upt_rec)
  have d: "n div 4096 < 16" using assms by simp
  show ?thesis using d by (simp add: hexString_def u hexDigit_lowercase)
qed

subsection \<open>One step of the decoder on each kind of token\<close>

lemma step_plain:
  assumes "c \<noteq> BSLASH"
  shows "unescapeStep (pre @ c # rest) (length pre) result = Inr (length pre + 1, result @ [c])"
  using assms by (simp add: unescapeStep_def)

lemma step_named:
  assumes "x \<in> {BSLASH, 0x6E, 0x72, 0x74, 0x62, 0x66, DQUOTE, SQUOTE}"
  shows "unescapeStep (pre @ BSLASH # x # rest) (length pre) result
    = Inr (length pre + 2, result @ [
        if x = 0x6E then NEWLINE else if x = 0x72 then CRETURN else if x = 0x74 then HTAB
        else if x = 0x62 then BACKSPACE else if x = 0x66 then FORMFEED else x])"
  using assms by (auto simp: unescapeStep_def nth_append)

lemma step_u4:
  assumes "length P = 4" "list_all isHexDigit P" "parseInt16 P = Some n" "n < 65536"
  shows "unescapeStep (pre @ BSLASH # 0x75 # P @ rest) (length pre) result
         = Inr (length pre + 6, result @ [of_nat n])"
proof -
  have ne: "P \<noteq> []" using assms(1) by auto
  show ?thesis
    using assms ne
    by (simp add: unescapeStep_def nth_append substring_def testHexPlus_def fromCodePoint_def)
qed

lemma step_x2:
  assumes "length P = 2" "list_all isHexDigit P" "parseInt16 P = Some n"
  shows "unescapeStep (pre @ BSLASH # 0x78 # P @ rest) (length pre) result
         = Inr (length pre + 4, result @ [of_nat n])"
  using assms
  by (simp add: unescapeStep_def nth_append substring_def testHex2_def fromCharCode_def)

lemma unescapeLoop_step:
  assumes "i < length str" "unescapeStep str i result = Inr (j, r)"
  shows "unescapeLoop str i result = unescapeLoop str j r"
  using assms by (subst unescapeLoop.simps) simp

subsection \<open>What the encoder emits for one code unit\<close>

lemma escapeChar_shape:
  "(c \<noteq> BSLASH \<and> 32 \<le> unat c \<and> unat c \<le> 126 \<and> escapeChar c style = [c])
   \<or> (escapeChar c style, c) \<in> {([BSLASH, BSLASH], BSLASH), ([BSLASH, 0x6E], NEWLINE),
        ([BSLASH, 0x72], CRETURN), ([BSLASH, 0x74], HTAB), ([BSLASH, 0x62], BACKSPACE),
        ([BSLASH, 0x66], FORMFEED), ([BSLASH, DQUOTE], DQUOTE), ([BSLASH, SQUOTE], SQUOTE)}
   \<or> escapeChar c style = BSLASH # 0x75 # padStart (toString16 (unat c)) 4 0x30
   \<or> (unat c < 256 \<and> escapeChar c style = BSLASH # 0x78 # padStart (toString16 (unat c)) 2 0x30)"
  using unat_u16_less [of c] by (cases style) (auto simp: escapeChar_def lit_def Let_def)

lemma step_token:
  "unescapeStep (pre @ escapeChar c style @ rest) (length pre) result
   = Inr (length pre + length (escapeChar c style), result @ [c])"
proof -
  let ?n = "unat c"
  have n: "?n < 65536" by (rule unat_u16_less)
  consider
    (plain) "c \<noteq> BSLASH" "escapeChar c style = [c]"
  | (named) "(escapeChar c style, c) \<in> {([BSLASH, BSLASH], BSLASH), ([BSLASH, 0x6E], NEWLINE),
        ([BSLASH, 0x72], CRETURN), ([BSLASH, 0x74], HTAB), ([BSLASH, 0x62], BACKSPACE),
        ([BSLASH, 0x66], FORMFEED), ([BSLASH, DQUOTE], DQUOTE), ([BSLASH, SQUOTE], SQUOTE)}"
  | (u4) "escapeChar c style = BSLASH # 0x75 # padStart (toString16 ?n) 4 0x30"
  | (x2) "?n < 256" "escapeChar c style = BSLASH # 0x78 # padStart (toString16 ?n) 2 0x30"
    using escapeChar_shape [of c style] by blast
  then show ?thesis
  proof cases
    case plain
    then show ?thesis using step_plain [of c pre rest result] by simp
  next
    case named
    then obtain x where x: "escapeChar c style = [BSLASH, x]"
      "x \<in> {BSLASH, 0x6E, 0x72, 0x74, 0x62, 0x66, DQUOTE, SQUOTE}"
      "c = (if x = 0x6E then NEWLINE else if x = 0x72 then CRETURN else if x = 0x74 then HTAB
        else if x = 0x62 then BACKSPACE else if x = 0x66 then FORMFEED else x)"
      by auto
    show ?thesis
      using step_named [OF x(2), of pre rest result] x(1) x(3) by simp
  next
    case u4
    show ?thesis
      using step_u4 [OF pad4_length [OF n] pad4_hex [OF n] pad4_parse [OF n] n, of pre rest result]
      by (simp add: u4 pad4_length [OF n])
  next
    case x2
    show ?thesis
      using step_x2 [OF pad2_length [OF x2(1)] pad2_hex [OF x2(1)] pad2_parse [OF x2(1)], of pre rest result]
      by (simp add: x2 pad2_length [OF x2(1)])
  qed
qed

lemma escapeChar_nonempty: "escapeChar c style \<noteq> []"
  using escapeChar_shape [of c style] by auto

lemma hexDigit_printable: "d < 16 \<Longrightarrow> 32 \<le> unat (hexDigit d) \<and> unat (hexDigit d) \<le> 126"
  by (simp add: hexDigit_unat)

lemma escapeChar_printable:
  assumes "x \<in> set (escapeChar c style)"
  shows "32 \<le> unat x \<and> unat x \<le> 126"
proof -
  let ?n = "unat c"
  have n: "?n < 65536" by (rule unat_u16_less)
  have d: "?n div 4096 < 16" using n by simp
  have e: "?n < 256 \<Longrightarrow> ?n div 16 < 16" by simp
  from escapeChar_shape [of c style] assms show ?thesis
    using hexDigit_printable [of "?n div 4096"] hexDigit_printable [of "?n div 256 mod 16"]
      hexDigit_printable [of "?n div 16 mod 16"] hexDigit_printable [of "?n mod 16"]
      hexDigit_printable [of "?n div 16"] d e
    by (auto simp: padStart4 [OF n] padStart2)
qed

lemma unescapeLoop_escaped:
  "unescapeLoop (pre @ escapeString s style) (length pre) result = Inr (result @ s)"
proof (induction s arbitrary: pre result)
  case Nil
  show ?case by (simp add: escapeString_concat unescapeLoop.simps)
next
  case (Cons c s)
  let ?tok = "escapeChar c style"
  let ?str = "pre @ ?tok @ escapeString s style"
  have str: "pre @ escapeString (c # s) style = ?str"
    by (simp add: escapeString_concat)
  have lt: "length pre < length ?str"
    using escapeChar_nonempty [of c style] by simp
  have "unescapeLoop ?str (length pre) result
        = unescapeLoop ?str (length pre + length ?tok) (result @ [c])"
    using lt by (subst unescapeLoop.simps) (simp add: step_token)
  also have "\<dots> = unescapeLoop ((pre @ ?tok) @ escapeString s style) (length (pre @ ?tok)) (result @ [c])"
    by simp
  also have "\<dots> = Inr ((result @ [c]) @ s)"
    by (rule Cons.IH)
  finally show ?case by (simp add: str)
qed

lemma escapeChar_plain:
  assumes "32 \<le> unat c \<and> unat c \<le> 126 \<and> c \<noteq> BSLASH \<and> c \<noteq> DQUOTE \<and> c \<noteq> SQUOTE"
  shows "escapeChar c style = [c]"
  using assms by (auto simp: escapeChar_def Let_def)

lemma countsAsEscaped_iff:
  "countsAsEscaped c \<longleftrightarrow>
     escapeChar c style \<noteq> [c] \<or> (c = SQUOTE \<and> (style = Json \<or> style = Javascript))"
  by (cases style) (auto simp: countsAsEscaped_def escapeChar_def lit_def Let_def)

lemma squote_unescaped:
  "style = Json \<or> style = Javascript \<Longrightarrow> escapeChar SQUOTE style = [SQUOTE]"
  by (auto simp: escapeChar_def)

text \<open>
  Code unit by code unit the counter and the encoder agree: the count is the number of
  code units whose escape differs from the unit, plus the single quotes for the styles
  that leave them alone.
\<close>

lemma escapeString_single: "escapeString [c] style = escapeChar c style"
  by (simp add: escapeString_def)

lemma count_per_code_unit:
  "countEscapedCharacters s =
     length (filter (\<lambda>c. escapeString [c] style \<noteq> [c]) s)
     + (if style = Json \<or> style = Javascript then length (filter (\<lambda>c. c = SQUOTE) s) else 0)"
proof (induction s)
  case Nil
  show ?case by (simp add: countEscapedCharacters_filter)
next
  case (Cons c s)
  then show ?case
    using countsAsEscaped_iff [of c style] squote_unescaped [of style]
    by (auto simp: countEscapedCharacters_filter escapeString_single)
qed

subsection \<open>Malformed escapes\<close>

lemma malformedEscapeAt_cases:
  assumes "malformedEscapeAt str i"
  obtains (trailing) "str ! i = BSLASH" "length str \<le> i + 1"
  | (unknown) "str ! i = BSLASH" "i + 1 < length str"
      "str ! (i + 1) \<notin> {BSLASH, DQUOTE, SQUOTE, 0x6E, 0x72, 0x74, 0x62, 0x66, 0x75, 0x55, 0x78}"
  | (hex2) "str ! i = BSLASH" "i + 1 < length str" "str ! (i + 1) = 0x78"
      "length str < i + 4 \<or> \<not> list_all isHexDigit (substring str (i + 2) (i + 4))"
  | (hex4) "str ! i = BSLASH" "i + 1 < length str" "str ! (i + 1) = 0x75"
      "length str < i + 6 \<or> \<not> list_all isHexDigit (substring str (i + 2) (i + 6))"
  | (hex8) "str ! i = BSLASH" "i + 1 < length str" "str ! (i + 1) = 0x55"
      "length str < i + 10 \<or> \<not> list_all isHexDigit (substring str (i + 2) (i + 10))"
proof (cases "length str \<le> i + 1")
  case True
  with assms trailing show ?thesis by (simp add: malformedEscapeAt_def)
next
  case False
  then have lt: "i + 1 < length str" by simp
  from assms False have b: "str ! i = BSLASH" and
    d: "str ! (i + 1) \<notin> {BSLASH, DQUOTE, SQUOTE, 0x6E, 0x72, 0x74, 0x62, 0x66, 0x75, 0x55, 0x78}
       \<or> (str ! (i + 1) = 0x78
           \<and> (length str < i + 4 \<or> \<not> list_all isHexDigit (substring str (i + 2) (i + 4))))
       \<or> (str ! (i + 1) = 0x75
           \<and> (length str < i + 6 \<or> \<not> list_all isHexDigit (substring str (i + 2) (i + 6))))
       \<or> (str ! (i + 1) = 0x55
           \<and> (length str < i + 10 \<or> \<not> list_all isHexDigit (substring str (i + 2) (i + 10))))"
    by (simp_all add: malformedEscapeAt_def lit_def)
  from d show ?thesis
  proof (elim disjE conjE)
    assume "str ! (i + 1) \<notin> {BSLASH, DQUOTE, SQUOTE, 0x6E, 0x72, 0x74, 0x62, 0x66, 0x75, 0x55, 0x78}"
    then show ?thesis using b lt unknown by blast
  qed (use b lt hex2 hex4 hex8 in blast)+
qed

lemma malformed_step:
  assumes "i < length str" "malformedEscapeAt str i"
  shows "unescapeStep str i result = Inr (i + 1, result @ [BSLASH])"
  using assms(2)
proof (cases rule: malformedEscapeAt_cases)
  case trailing
  then show ?thesis by (simp add: unescapeStep_def)
next
  case unknown
  then show ?thesis by (simp add: unescapeStep_def)
next
  case hex2
  then show ?thesis by (auto simp: unescapeStep_def testHex2_def substring_def Let_def)
next
  case hex4
  then show ?thesis by (auto simp: unescapeStep_def testHexPlus_def substring_def Let_def)
next
  case hex8
  then show ?thesis by (auto simp: unescapeStep_def testHexPlus_def substring_def Let_def)
qed

lemma malformed_next_step:
  assumes "i + 1 < length str" "malformedEscapeAt str i"
  shows "unescapeStep str (i + 1) result = Inr (i + 2, result @ [str ! (i + 1)])"
  using assms(2)
proof (cases rule: malformedEscapeAt_cases)
  case trailing
  with assms(1) show ?thesis by simp
next
  case unknown
  then show ?thesis by (simp add: unescapeStep_def)
next
  case hex2
  then show ?thesis by (simp add: unescapeStep_def)
next
  case hex4
  then show ?thesis by (simp add: unescapeStep_def)
next
  case hex8
  then show ?thesis by (simp add: unescapeStep_def)
qed

section \<open>The claims\<close>

text \<open>
  C1, at the input the claim names. The string U+1F600 is the two code units
  \<open>D83D DE00\<close>; the loop visits them one at a time and \<^verbatim>\<open>charCodeAt(0)\<close> is below
  \<open>0x10000\<close> for each, so style python emits two four-digit escapes (twelve characters)
  and not the ten characters backslash, \<open>U\<close>, \<open>0001f600\<close> that the claim gives.
\<close>

theorem escape_python_astral_emits_surrogate_escapes:
  "escapeString [0xD83D, 0xDE00] Python = BSLASH # lit ''ud83d'' @ BSLASH # lit ''ude00''
   \<and> escapeString [0xD83D, 0xDE00] Python \<noteq> BSLASH # lit ''U0001f600''"
  by (simp add: escapeString_def escapeChar_def lit_def padStart_def toString16.simps
      hexDigit_def)

text \<open>
  C2, at an input that breaks it. Backslash, \<open>U\<close> and eight hexadecimal digits whose
  value is above \<open>0x10FFFF\<close> pass the length check and the digit test; then
  \<^verbatim>\<open>String.fromCodePoint\<close> throws, and so does \<^verbatim>\<open>unescapeString\<close>.
\<close>

theorem unescape_long_escape_out_of_range_throws:
  "unescapeString (BSLASH # lit ''UFFFFFFFF'') = Inl RangeError
   \<and> unescapeString (BSLASH # lit ''U00110000'') = Inl RangeError"
  by (simp add: unescapeString_def unescapeLoop.simps unescapeStep_def lit_def substring_def
      testHexPlus_def isHexDigit_def parseInt16_def hexValue_def fromCodePoint_def)

text \<open>
  C3, amended. The claim says that the json round trip loses some code point beyond
  the Basic Multilingual Plane. It loses none: for every such code point \<open>x\<close>, held
  in a string as its surrogate pair (which is what \<^verbatim>\<open>String.fromCodePoint\<close> gives),
  unescaping the json escape of the string returns the string. The encoder writes one
  four-digit escape per surrogate, the decoder turns each back into the same code unit,
  and two adjacent surrogate code units are the original character.
\<close>

theorem roundtrip_json_astral_lossless:
  assumes "0x10000 \<le> x" "x \<le> 0x10FFFF"
  shows "fromCodePoint x = Inr (surrogatePair x)
       \<and> unescapeString (escapeString (surrogatePair x) Json) = Inr (surrogatePair x)"
  using assms unescapeLoop_escaped [of "[]" "surrogatePair x" Json "[]"]
  by (simp add: unescapeString_def fromCodePoint_def surrogatePair_def)

theorem roundtrip_json_astral_lossless_witness:
  "(0x10000::nat) \<le> 0x1F600 \<and> (0x1F600::nat) \<le> 0x10FFFF
   \<and> surrogatePair 0x1F600 = [0xD83D, 0xDE00]
   \<and> escapeString [0xD83D, 0xDE00] Json = BSLASH # lit ''ud83d'' @ BSLASH # lit ''ude00''
   \<and> unescapeString (BSLASH # lit ''ud83d'' @ BSLASH # lit ''ude00'') = Inr [0xD83D, 0xDE00]"
proof -
  have e: "escapeString [0xD83D, 0xDE00] Json = BSLASH # lit ''ud83d'' @ BSLASH # lit ''ude00''"
    by (simp add: escapeString_def escapeChar_def lit_def padStart_def toString16.simps
        hexDigit_def)
  have p: "surrogatePair 0x1F600 = [0xD83D, 0xDE00]"
    by (simp add: surrogatePair_def)
  show ?thesis
    using roundtrip_json_astral_lossless [of "0x1F600"] by (simp add: p e)
qed

text \<open>
  C3 as stated is false: no code point beyond the Basic Multilingual Plane has a lossy
  json round trip.
\<close>

theorem roundtrip_json_astral_counterexample:
  "\<not> (\<exists>x. 0x10000 \<le> x \<and> x \<le> 0x10FFFF
        \<and> unescapeString (escapeString (surrogatePair x) Json) \<noteq> Inr (surrogatePair x))"
  using unescapeLoop_escaped [of "[]" _ Json "[]"] by (simp add: unescapeString_def)

text \<open>
  C4. For every string of UTF-16 code units and each of the four styles, unescaping
  the escaped string succeeds and returns the string.
\<close>

theorem roundtrip_all_inputs:
  "unescapeString (escapeString s style) = Inr s"
  using unescapeLoop_escaped [of "[]" s style "[]"] by (simp add: unescapeString_def)

theorem roundtrip_all_inputs_witness:
  "unescapeString (escapeString [0xE9, BSLASH, 0x00, SQUOTE, 0xD83D, 0xDE00, 0x41] C)
   = Inr [0xE9, BSLASH, 0x00, SQUOTE, 0xD83D, 0xDE00, 0x41]"
  using roundtrip_all_inputs [of "[0xE9, BSLASH, 0x00, SQUOTE, 0xD83D, 0xDE00, 0x41]" C]
  by simp

text \<open>
  C5, at an input that breaks it. The string U+1F600 is one character (one code point,
  the two code units \<open>D83D DE00\<close>) without a single quote, and every style escapes it
  to something other than itself, so the count of characters that need escaping is one.
  The counter walks the code units, as the encoder does, finds both above 126 and
  returns two.
\<close>

theorem count_astral_character_counted_twice:
  "fromCodePoint 0x1F600 = Inr [0xD83D, 0xDE00]
   \<and> countEscapedCharacters [0xD83D, 0xDE00] = 2
   \<and> escapeString [0xD83D, 0xDE00] Json \<noteq> [0xD83D, 0xDE00]
   \<and> escapeString [0xD83D, 0xDE00] Javascript \<noteq> [0xD83D, 0xDE00]
   \<and> escapeString [0xD83D, 0xDE00] Python \<noteq> [0xD83D, 0xDE00]
   \<and> escapeString [0xD83D, 0xDE00] C \<noteq> [0xD83D, 0xDE00]
   \<and> SQUOTE \<notin> set [0xD83D, 0xDE00]"
  by (simp add: fromCodePoint_def countEscapedCharacters_def countsAsEscaped_def
      escapeString_def escapeChar_def lit_def)

text \<open>
  C6. For a string of printable ASCII characters (32 to 126) without backslash, double
  quote and single quote, and for every style, unescaping the escaped string returns
  the string (the encoder leaves such a string as it is).
\<close>

theorem roundtrip_printable_ascii:
  assumes "\<forall>c \<in> set s. 32 \<le> unat c \<and> unat c \<le> 126 \<and> c \<noteq> BSLASH \<and> c \<noteq> DQUOTE \<and> c \<noteq> SQUOTE"
  shows "unescapeString (escapeString s style) = Inr s \<and> escapeString s style = s"
proof -
  have "concat (map (\<lambda>c. escapeChar c style) s) = s"
    using assms by (induction s) (simp_all add: escapeChar_plain)
  then show ?thesis
    using unescapeLoop_escaped [of "[]" s style "[]"]
    by (simp add: unescapeString_def escapeString_concat)
qed

theorem roundtrip_printable_ascii_witness:
  "list_all (\<lambda>c. 32 \<le> unat c \<and> unat c \<le> 126 \<and> c \<noteq> BSLASH \<and> c \<noteq> DQUOTE \<and> c \<noteq> SQUOTE)
     (lit ''Hello, World! ~{}'')
   \<and> unescapeString (escapeString (lit ''Hello, World! ~{}'') Python)
       = Inr (lit ''Hello, World! ~{}'')
   \<and> escapeString (lit ''Hello, World! ~{}'') Python = lit ''Hello, World! ~{}''"
proof -
  have h: "\<forall>c \<in> set (lit ''Hello, World! ~{}'').
      32 \<le> unat c \<and> unat c \<le> 126 \<and> c \<noteq> BSLASH \<and> c \<noteq> DQUOTE \<and> c \<noteq> SQUOTE"
    by (simp add: lit_def)
  show ?thesis
    using h roundtrip_printable_ascii [OF h, of Python] unfolding list_all_iff by blast
qed

text \<open>
  C7. In the decoder, at a backslash that starts a malformed escape (see
  \<open>malformedEscapeAt\<close>), the step emits exactly the backslash and moves the cursor by
  one; when a character follows, the next step copies it as plain text. The two inputs
  the claim names come back unchanged.
\<close>

theorem unescape_malformed_keeps_backslash:
  assumes "i < length str" "malformedEscapeAt str i"
  shows "unescapeStep str i result = Inr (i + 1, result @ [BSLASH])
       \<and> unescapeLoop str i result = unescapeLoop str (i + 1) (result @ [BSLASH])
       \<and> (i + 1 < length str \<longrightarrow>
            unescapeLoop str i result = unescapeLoop str (i + 2) (result @ [BSLASH, str ! (i + 1)]))
       \<and> unescapeString (BSLASH # lit ''q'') = Inr (BSLASH # lit ''q'')
       \<and> unescapeString (BSLASH # lit ''xZZ'') = Inr (BSLASH # lit ''xZZ'')"
proof -
  have s1: "unescapeStep str i result = Inr (i + 1, result @ [BSLASH])"
    by (rule malformed_step [OF assms])
  have l1: "unescapeLoop str i result = unescapeLoop str (i + 1) (result @ [BSLASH])"
    by (rule unescapeLoop_step [OF assms(1) s1])
  have l2: "unescapeLoop str i result = unescapeLoop str (i + 2) (result @ [BSLASH, str ! (i + 1)])"
    if lt: "i + 1 < length str"
  proof -
    have "unescapeLoop str (i + 1) (result @ [BSLASH])
          = unescapeLoop str (i + 2) ((result @ [BSLASH]) @ [str ! (i + 1)])"
      by (rule unescapeLoop_step [OF lt malformed_next_step [OF lt assms(2)]])
    with l1 show ?thesis by simp
  qed
  have q: "unescapeString (BSLASH # lit ''q'') = Inr (BSLASH # lit ''q'')"
    by (simp add: unescapeString_def unescapeLoop.simps unescapeStep_def lit_def)
  have z: "unescapeString (BSLASH # lit ''xZZ'') = Inr (BSLASH # lit ''xZZ'')"
    by (simp add: unescapeString_def unescapeLoop.simps unescapeStep_def lit_def substring_def
        testHex2_def isHexDigit_def)
  from s1 l1 l2 q z show ?thesis by blast
qed

theorem unescape_malformed_keeps_backslash_witness:
  "(0::nat) < length (BSLASH # lit ''u12G4z'') \<and> malformedEscapeAt (BSLASH # lit ''u12G4z'') 0
   \<and> unescapeStep (BSLASH # lit ''u12G4z'') 0 [] = Inr (1, [BSLASH])
   \<and> unescapeString (BSLASH # lit ''u12G4z'') = Inr (BSLASH # lit ''u12G4z'')"
proof -
  have h1: "(0::nat) < length (BSLASH # lit ''u12G4z'')" by simp
  have h2: "malformedEscapeAt (BSLASH # lit ''u12G4z'') 0"
    by (simp add: malformedEscapeAt_def lit_def substring_def isHexDigit_def)
  have r: "unescapeString (BSLASH # lit ''u12G4z'') = Inr (BSLASH # lit ''u12G4z'')"
    by (simp add: unescapeString_def unescapeLoop.simps unescapeStep_def lit_def substring_def
        testHexPlus_def isHexDigit_def)
  show ?thesis
    using h1 h2 r unescape_malformed_keeps_backslash [OF h1 h2, of "[]"] by simp
qed

text \<open>
  C8, amended. For style c and every non-printable character (value below 32 or above
  126) that the earlier cases of the \<^verbatim>\<open>switch\<close> have not taken, the encoder emits
  backslash, \<open>x\<close> and the two zero-padded lowercase hexadecimal digits of the value
  when the value is below 256, and backslash, \<open>u\<close> and its four digits when the value
  is from 256 to \<open>0xFFFF\<close>, wherever the character stands in the input. The earlier
  cases take backspace, tab, newline, form feed and carriage return, emitted as
  backslash and \<open>b\<close>, \<open>t\<close>, \<open>n\<close>, \<open>f\<close>, \<open>r\<close>. The character of value \<open>x\<close> is the
  string \<^verbatim>\<open>String.fromCodePoint(x)\<close>, one code unit up to \<open>0xFFFF\<close>.
\<close>

theorem escape_c_style_hex:
  assumes "x < 32 \<or> x > 126"
    and "x \<notin> {8, 9, 10, 12, 13}"
    and "x \<le> 0xFFFF"
  shows "fromCodePoint x = Inr [of_nat x]
       \<and> (x < 256 \<longrightarrow> escapeString [of_nat x] C = BSLASH # lit ''x'' @ hexString 2 x)
       \<and> (256 \<le> x \<longrightarrow> escapeString [of_nat x] C = BSLASH # lit ''u'' @ hexString 4 x)
       \<and> escapeString (xs @ [of_nat x] @ ys) C
           = escapeString xs C @ escapeString [of_nat x] C @ escapeString ys C
       \<and> escapeString [BACKSPACE, HTAB, NEWLINE, FORMFEED, CRETURN] C
           = BSLASH # lit ''b'' @ BSLASH # lit ''t'' @ BSLASH # lit ''n'' @ BSLASH # lit ''f''
             @ BSLASH # lit ''r''"
proof -
  let ?c = "of_nat x :: u16"
  have n: "x < 65536" using assms(3) by simp
  have u: "unat ?c = x" by (rule unat_of_nat_u16 [OF n])
  have ne: "?c \<noteq> BSLASH" "?c \<noteq> DQUOTE" "?c \<noteq> SQUOTE" "?c \<noteq> NEWLINE" "?c \<noteq> CRETURN"
    "?c \<noteq> HTAB" "?c \<noteq> BACKSPACE" "?c \<noteq> FORMFEED"
    using assms(1,2) u by auto
  have f: "fromCodePoint x = Inr [?c]"
    using n by (simp add: fromCodePoint_def)
  have e: "escapeString [?c] C =
      (if x < 256 then BSLASH # lit ''x'' @ hexString 2 x else BSLASH # lit ''u'' @ hexString 4 x)"
    using assms(1) ne n
    by (simp add: escapeString_def escapeChar_def Let_def u padStart4 padStart2 hexString_4
        hexString_2)
  have a: "escapeString (xs @ [?c] @ ys) C = escapeString xs C @ escapeString [?c] C @ escapeString ys C"
    by (simp add: escapeString_concat)
  have c: "escapeString [BACKSPACE, HTAB, NEWLINE, FORMFEED, CRETURN] C
           = BSLASH # lit ''b'' @ BSLASH # lit ''t'' @ BSLASH # lit ''n'' @ BSLASH # lit ''f''
             @ BSLASH # lit ''r''"
    by (simp add: escapeString_def escapeChar_def lit_def)
  from f e a c show ?thesis by simp
qed

theorem escape_c_style_hex_witness:
  "escapeString [0xE9] C = BSLASH # lit ''xe9''
   \<and> escapeString [0x7F] C = BSLASH # lit ''x7f''
   \<and> escapeString [0x07] C = BSLASH # lit ''x07''
   \<and> escapeString [0x100] C = BSLASH # lit ''u0100''
   \<and> escapeString [0x20AC] C = BSLASH # lit ''u20ac''
   \<and> escapeString [0xFFFF] C = BSLASH # lit ''uffff''"
  using escape_c_style_hex [of "0xE9" "[]" "[]"] escape_c_style_hex [of "0x7F" "[]" "[]"]
    escape_c_style_hex [of "0x07" "[]" "[]"] escape_c_style_hex [of "0x100" "[]" "[]"]
    escape_c_style_hex [of "0x20AC" "[]" "[]"] escape_c_style_hex [of "0xFFFF" "[]" "[]"]
  by (simp add: hexString_def lit_def upt_rec)

text \<open>
  C8 as stated is false at a character of value \<open>0x10000\<close> or more: U+1F600 is not
  printable and its value is above 256, yet style c emits twelve characters for it, one
  four-digit escape per surrogate, and not backslash, \<open>u\<close> and four digits.
\<close>

theorem escape_c_astral_counterexample:
  "fromCodePoint 0x1F600 = Inr [0xD83D, 0xDE00]
   \<and> escapeString [0xD83D, 0xDE00] C = BSLASH # lit ''ud83d'' @ BSLASH # lit ''ude00''
   \<and> length (escapeString [0xD83D, 0xDE00] C) = 12
   \<and> \<not> (\<exists>ds. length ds = 4 \<and> escapeString [0xD83D, 0xDE00] C = BSLASH # lit ''u'' @ ds)"
proof -
  have e: "escapeString [0xD83D, 0xDE00] C = BSLASH # lit ''ud83d'' @ BSLASH # lit ''ude00''"
    by (simp add: escapeString_def escapeChar_def lit_def padStart_def toString16.simps
        hexDigit_def)
  have l: "length (escapeString [0xD83D, 0xDE00] C) = 12"
    by (simp add: e lit_def)
  have n: "\<not> (\<exists>ds. length ds = 4 \<and> escapeString [0xD83D, 0xDE00] C = BSLASH # lit ''u'' @ ds)"
  proof
    assume "\<exists>ds. length ds = 4 \<and> escapeString [0xD83D, 0xDE00] C = BSLASH # lit ''u'' @ ds"
    then obtain ds where "length ds = 4" "escapeString [0xD83D, 0xDE00] C = BSLASH # lit ''u'' @ ds"
      by blast
    then have "length (escapeString [0xD83D, 0xDE00] C) = 6" by (simp add: lit_def)
    with l show False by simp
  qed
  have f: "fromCodePoint 0x1F600 = Inr [0xD83D, 0xDE00]"
    by (simp add: fromCodePoint_def)
  from e l n f show ?thesis by blast
qed

text \<open>
  C9. For every input and every style, each character of the escaped string is
  printable ASCII: its value is between 32 and 126.
\<close>

theorem escape_output_printable_ascii:
  "\<forall>x \<in> set (escapeString s style). 32 \<le> unat x \<and> unat x \<le> 126"
  by (auto simp: escapeString_concat dest: escapeChar_printable)

theorem escape_output_printable_ascii_witness:
  "list_all (\<lambda>x. 32 \<le> unat x \<and> unat x \<le> 126) (escapeString [0xE9, 0x0A, 0x41, 0xD83D] C)
   \<and> escapeString [0xE9, 0x0A, 0x41, 0xD83D] C
       = BSLASH # lit ''xe9'' @ BSLASH # lit ''n'' @ lit ''A'' @ BSLASH # lit ''ud83d''"
proof -
  have v: "escapeString [0xE9, 0x0A, 0x41, 0xD83D] C
       = BSLASH # lit ''xe9'' @ BSLASH # lit ''n'' @ lit ''A'' @ BSLASH # lit ''ud83d''"
    by (simp add: escapeString_def escapeChar_def lit_def padStart_def toString16.simps
        hexDigit_def)
  show ?thesis
    using v escape_output_printable_ascii [of "[0xE9, 0x0A, 0x41, 0xD83D]" C]
    unfolding list_all_iff by blast
qed

text \<open>
  C10. A single quote is emitted unchanged for the styles json and javascript and as
  backslash plus quote for the styles python and c, both for the one-character string
  and for the quote wherever it stands in a longer input (one loop iteration).
\<close>

theorem escape_single_quote_by_style:
  "escapeString [SQUOTE] Json = [SQUOTE]
   \<and> escapeString [SQUOTE] Javascript = [SQUOTE]
   \<and> escapeString [SQUOTE] Python = [BSLASH, SQUOTE]
   \<and> escapeString [SQUOTE] C = [BSLASH, SQUOTE]
   \<and> escapeChar SQUOTE style =
       (if style = Python \<or> style = C then [BSLASH, SQUOTE] else [SQUOTE])"
  by (simp add: escapeString_def escapeChar_def)

end
